theory Spec2Isabelle
  imports Main "HOL-Library.Word"
begin

unbundle bit_operations_syntax

section \<open>Bytes and machine integers\<close>

type_synonym byte = "8 word"
type_synonym bytes = "byte list"
type_synonym uint64 = "64 word"

section \<open>The varint codec used by the framing (Go's encoding/binary)\<close>

text \<open>
  \<^verbatim>\<open>binary.MaxVarintLen64\<close> is the constant 10.
\<close>

definition MaxVarintLen64 :: nat where
  "MaxVarintLen64 = 10"

text \<open>
  \<^verbatim>\<open>binary.PutUvarint(buf, x)\<close>:
  \<^verbatim>\<open>
  i := 0
  for x >= 0x80 { buf[i] = byte(x) | 0x80; x >>= 7; i++ }
  buf[i] = byte(x)
  return i + 1
  \<close>
  An index outside the buffer panics in Go; the model returns \<open>None\<close> there.
\<close>

function PutUvarint_loop :: "nat \<Rightarrow> bytes \<Rightarrow> uint64 \<Rightarrow> (bytes \<times> nat) option" where
  "PutUvarint_loop i buf x =
     (if 0x80 \<le> x then
        (if i < length buf
         then PutUvarint_loop (Suc i) (buf[i := ucast x OR 0x80]) (drop_bit 7 x)
         else None)
      else if i < length buf then Some (buf[i := ucast x], i + 1) else None)"
  by pat_completeness auto
termination
  by (relation "measure (\<lambda>(i, buf, x). unat x)")
    (simp_all add: word_le_nat_alt unat_drop_bit_eq drop_bit_eq_div unat_div)

declare PutUvarint_loop.simps [simp del]

definition PutUvarint :: "bytes \<Rightarrow> uint64 \<Rightarrow> (bytes \<times> nat) option" where
  "PutUvarint buf x = PutUvarint_loop 0 buf x"

text \<open>
  \<^verbatim>\<open>binary.Uvarint(buf)\<close>:
  \<^verbatim>\<open>
  var x uint64; var s uint
  for i, b := range buf {
    if i == MaxVarintLen64 { return 0, -(i + 1) }
    if b < 0x80 {
      if i == MaxVarintLen64-1 && b > 1 { return 0, -(i + 1) }
      return x | uint64(b)<<s, i + 1
    }
    x |= uint64(b&0x7f) << s
    s += 7
  }
  return 0, 0
  \<close>
\<close>

fun Uvarint_loop :: "nat \<Rightarrow> uint64 \<Rightarrow> nat \<Rightarrow> bytes \<Rightarrow> uint64 \<times> int" where
  "Uvarint_loop i x s [] = (0, 0)"
| "Uvarint_loop i x s (b # bs) =
     (if i = MaxVarintLen64 then (0, - (int i + 1))
      else if b < 0x80 then
        (if i = MaxVarintLen64 - 1 \<and> 1 < b then (0, - (int i + 1))
         else (x OR push_bit s (ucast b), int i + 1))
      else Uvarint_loop (i + 1) (x OR push_bit s (ucast (b AND 0x7f))) (s + 7) bs)"

definition Uvarint :: "bytes \<Rightarrow> uint64 \<times> int" where
  "Uvarint buf = Uvarint_loop 0 0 0 buf"

text \<open>The bytes the loop of \<^verbatim>\<open>PutUvarint\<close> stores, in order.\<close>

function uvarint_bytes :: "uint64 \<Rightarrow> bytes" where
  "uvarint_bytes x =
     (if 0x80 \<le> x then (ucast x OR 0x80) # uvarint_bytes (drop_bit 7 x) else [ucast x])"
  by pat_completeness auto
termination
  by (relation "measure unat")
    (simp_all add: word_le_nat_alt unat_drop_bit_eq drop_bit_eq_div unat_div)

declare uvarint_bytes.simps [simp del]

text \<open>
  The unsigned variable-length integer in its minimal form, after the words of the
  specification: base-128 digits, least significant first, every byte but the last with
  the continuation bit (128) set, and no digit beyond the most significant non-zero one.
\<close>

fun min_uvarint :: "nat \<Rightarrow> bytes" where
  "min_uvarint n =
     (if n < 128 then [of_nat n] else of_nat (128 + n mod 128) # min_uvarint (n div 128))"

declare min_uvarint.simps [simp del]

section \<open>Messages\<close>

text \<open>
  Modelled from the spec: the generated protobuf types \<^verbatim>\<open>protobuf.Message\<close> and
  \<^verbatim>\<open>protobuf.ID\<close> are not among the sources. The fields are the ones
  \<^verbatim>\<open>receiveMessage\<close> reads: \<^verbatim>\<open>msg.Message\<close> (a pointer, with \<^verbatim>\<open>.Value\<close>),
  \<^verbatim>\<open>msg.Sender\<close> (a pointer, with \<^verbatim>\<open>.PublicKey\<close> and \<^verbatim>\<open>.Address\<close>) and
  \<^verbatim>\<open>msg.Signature\<close>. A nil pointer or nil byte slice is \<open>None\<close>.
\<close>

record Any =
  TypeUrl :: string
  Value :: bytes

record ID =
  PublicKey :: "bytes option"
  Address :: string

record message =
  Message :: "Any option"
  Sender :: "ID option"
  Signature :: "bytes option"

section \<open>Errors\<close>

text \<open>
  Errors of the callees: \<^verbatim>\<open>io.EOF\<close>, \<^verbatim>\<open>io.ErrUnexpectedEOF\<close>, and any other error of
  the session, the stream, the reader, the writer or the protobuf library (a passed
  deadline, a malformed message, ...). The protobuf library reports input that ends too
  early with \<^verbatim>\<open>io.ErrUnexpectedEOF\<close> as well.
\<close>

datatype io_error = EOF | ErrUnexpectedEOF | IOError nat

text \<open>
  The error values \<^verbatim>\<open>sendMessage\<close>, \<^verbatim>\<open>receiveMessage\<close> and \<^verbatim>\<open>Write\<close> return: an
  error of a callee handed on unchanged, or one made on the spot.
\<close>

datatype error =
    Err io_error
  | ErrShortWrite nat nat
  | ErrBadLength
  | ErrInvalidMessage
  | ErrBadSignature
  | ErrTimedOut
  | Panic

section \<open>Streams\<close>

text \<open>
  A point in time is a number of nanoseconds; the zero \<^verbatim>\<open>time.Time{}\<close>, which as a
  deadline means no deadline, is \<open>None\<close>.
\<close>

type_synonym time = "nat option"

text \<open>
  What one stream of the session does when it is used: the result of the first
  \<^verbatim>\<open>SetDeadline\<close>, the chunks of bytes that successive reads find, the error a read
  meets once the chunks are used up (\<open>EOF\<close> when the peer closed the stream), and the
  results of the buffered writer's \<^verbatim>\<open>Write\<close> and \<^verbatim>\<open>Flush\<close>.
\<close>

record stream =
  set_deadline_err :: "io_error option"
  chunks :: "bytes list"
  read_end :: io_error
  write_result :: "bytes \<Rightarrow> nat \<times> io_error option"
  flush_err :: "io_error option"

text \<open>What a call does to the stream and to the collaborators, in order.\<close>

datatype event =
    EvSetDeadline time
  | EvClose
  | EvRead nat
  | EvMake nat
  | EvReadFull nat
  | EvUnmarshal bytes
  | EvVerify bytes bytes bytes
  | EvWrite bytes
  | EvFlush

text \<open>
  \<^verbatim>\<open>reader.Read(p)\<close> of the buffered reader, for a buffer of \<open>n\<close> bytes: at most one
  read of the stream, and as many of its bytes as fit; the others stay buffered for the
  next read. The reader's own buffer changes how many bytes one read of the stream asks
  for, not which bytes the caller gets, so what is buffered is kept at the head of the
  chunks.
\<close>

fun reader_Read :: "nat \<Rightarrow> bytes list \<Rightarrow> io_error \<Rightarrow> io_error + (bytes \<times> bytes list)" where
  "reader_Read n [] e = Inl e"
| "reader_Read n (c # cs) e =
     Inr (take n c, if n < length c then drop n c # cs else cs)"

text \<open>
  \<^verbatim>\<open>io.ReadFull(reader, buf)\<close>, that is \<^verbatim>\<open>io.ReadAtLeast(reader, buf, len(buf))\<close>:
  \<^verbatim>\<open>
  for n < min && err == nil { nn, err = r.Read(buf[n:]); n += nn }
  if n >= min { err = nil } else if n > 0 && err == EOF { err = ErrUnexpectedEOF }
  \<close>
  The result is the bytes read, the error, and what is left of the stream.
\<close>

fun ReadAtLeast_loop :: "nat \<Rightarrow> bytes \<Rightarrow> bytes list \<Rightarrow> io_error
    \<Rightarrow> bytes \<times> io_error option \<times> bytes list" where
  "ReadAtLeast_loop m got [] e =
     (if length got < m then (got, Some e, []) else (got, None, []))"
| "ReadAtLeast_loop m got (c # cs) e =
     (if length got < m then
        (if m - length got < length c
         then (got @ take (m - length got) c, None, drop (m - length got) c # cs)
         else ReadAtLeast_loop m (got @ c) cs e)
      else (got, None, c # cs))"

definition ReadFull :: "nat \<Rightarrow> bytes list \<Rightarrow> io_error \<Rightarrow> bytes \<times> io_error option \<times> bytes list" where
  "ReadFull m cs e =
     (case ReadAtLeast_loop m [] cs e of
        (got, None, rest) \<Rightarrow> (got, None, rest)
      | (got, Some err, rest) \<Rightarrow>
          (if m \<le> length got then (got, None, rest)
           else if 0 < length got \<and> err = EOF then (got, Some ErrUnexpectedEOF, rest)
           else (got, Some err, rest)))"

section \<open>sendMessage\<close>

text \<open>
  Lines 38 to 43: a buffer of \<^verbatim>\<open>binary.MaxVarintLen64\<close> zero bytes, the size written into
  it by \<^verbatim>\<open>PutUvarint\<close>, and the whole buffer put before the message bytes.
\<close>

definition prefix_with_size :: "bytes \<Rightarrow> bytes option" where
  "prefix_with_size bs =
     (case PutUvarint (replicate MaxVarintLen64 0) (of_nat (length bs)) of
        None \<Rightarrow> None
      | Some (buffer, n) \<Rightarrow> Some (buffer @ bs))"

text \<open>
  After the deadline is set: marshal, prefix, write, flush, compare the count. The result
  is the returned error (\<open>None\<close> for nil) and the events.
\<close>

definition sendMessage_body :: "(message \<Rightarrow> io_error + bytes) \<Rightarrow> stream \<Rightarrow> message
    \<Rightarrow> error option \<times> event list" where
  "sendMessage_body marshal st msg =
     (case marshal msg of
        Inl e \<Rightarrow> (Some (Err e), [])
      | Inr bs \<Rightarrow>
          (case prefix_with_size bs of
             None \<Rightarrow> (Some Panic, [])
           | Some framed \<Rightarrow>
               (case write_result st framed of
                  (written, Some e) \<Rightarrow> (Some (Err e), [EvWrite framed])
                | (written, None) \<Rightarrow>
                    (case flush_err st of
                       Some e \<Rightarrow> (Some (Err e), [EvWrite framed, EvFlush])
                     | None \<Rightarrow>
                         (if written \<noteq> length framed
                          then (Some (ErrShortWrite written (length framed)),
                                [EvWrite framed, EvFlush])
                          else (None, [EvWrite framed, EvFlush]))))))"

text \<open>
  The whole function. \<open>opened\<close> is the result of \<^verbatim>\<open>session.OpenStream()\<close>, \<open>now\<close> is
  \<^verbatim>\<open>time.Now()\<close>. The two deferred calls run last, in the reverse order of their
  \<^verbatim>\<open>defer\<close> statements; the second is only deferred once the deadline was set.
\<close>

definition sendMessage :: "(message \<Rightarrow> io_error + bytes) \<Rightarrow> io_error + stream \<Rightarrow> nat \<Rightarrow> message
    \<Rightarrow> error option \<times> event list" where
  "sendMessage marshal opened now msg =
     (case opened of
        Inl e \<Rightarrow> (Some (Err e), [])
      | Inr st \<Rightarrow>
          (case set_deadline_err st of
             Some e \<Rightarrow> (Some (Err e), [EvSetDeadline (Some (now + 1000000000)), EvClose])
           | None \<Rightarrow>
               (case sendMessage_body marshal st msg of
                  (r, evs) \<Rightarrow>
                    (r, EvSetDeadline (Some (now + 1000000000)) # evs
                        @ [EvSetDeadline None, EvClose]))))"

section \<open>receiveMessage\<close>

text \<open>Line 123: the check of the message headers, in the order of the source.\<close>

definition headers_invalid :: "message \<Rightarrow> bool" where
  "headers_invalid msg =
     (case Message msg of
        None \<Rightarrow> True
      | Some a \<Rightarrow>
          (case Sender msg of
             None \<Rightarrow> True
           | Some s \<Rightarrow>
               (case PublicKey s of
                  None \<Rightarrow> True
                | Some k \<Rightarrow> length (Address s) = 0 \<or> Signature msg = None)))"

text \<open>The bytes of a byte slice; a nil slice has none.\<close>

definition slice_bytes :: "bytes option \<Rightarrow> bytes" where
  "slice_bytes s = (case s of None \<Rightarrow> [] | Some bs \<Rightarrow> bs)"

text \<open>
  Lines 122 to 132, for a message that was unmarshalled. Line 128 dereferences
  \<^verbatim>\<open>msg.Sender\<close> and \<^verbatim>\<open>msg.Message\<close>, which panics on a nil pointer.
\<close>

definition check_message :: "(bytes \<Rightarrow> bytes \<Rightarrow> bytes \<Rightarrow> bool) \<Rightarrow> message
    \<Rightarrow> (error + message) \<times> event list" where
  "check_message verify msg =
     (if headers_invalid msg then (Inl ErrInvalidMessage, [])
      else
        (case Sender msg of
           None \<Rightarrow> (Inl Panic, [])
         | Some s \<Rightarrow>
             (case Message msg of
                None \<Rightarrow> (Inl Panic, [])
              | Some a \<Rightarrow>
                  (if \<not> verify (slice_bytes (PublicKey s)) (Value a) (slice_bytes (Signature msg))
                   then (Inl ErrBadSignature,
                         [EvVerify (slice_bytes (PublicKey s)) (Value a)
                            (slice_bytes (Signature msg))])
                   else (Inr msg,
                         [EvVerify (slice_bytes (PublicKey s)) (Value a)
                            (slice_bytes (Signature msg))])))))"

text \<open>
  Lines 83 to 132, after the deadline is set: the probe of \<^verbatim>\<open>binary.MaxVarintLen64\<close>
  bytes (what the read does not fill stays zero), the size, the body, the message.
\<close>

definition receiveMessage_body :: "(bytes \<Rightarrow> io_error + message) \<Rightarrow> (bytes \<Rightarrow> bytes \<Rightarrow> bytes \<Rightarrow> bool)
    \<Rightarrow> stream \<Rightarrow> (error + message) \<times> event list" where
  "receiveMessage_body unmarshal verify st =
     (case reader_Read MaxVarintLen64 (chunks st) (read_end st) of
        Inl e \<Rightarrow> (Inl (Err e), [EvRead MaxVarintLen64])
      | Inr (got, rest) \<Rightarrow>
          (case Uvarint (got @ replicate (MaxVarintLen64 - length got) 0) of
             (sz, read) \<Rightarrow>
               (if read \<le> 0 \<or> 4000000 < sz
                then (Inl ErrBadLength, [EvRead MaxVarintLen64])
                else
                  (case ReadFull (unat sz) rest (read_end st) of
                     (buffer, Some e, rest') \<Rightarrow>
                       (Inl (Err e),
                        [EvRead MaxVarintLen64, EvMake (unat sz), EvReadFull (unat sz)]
                        @ (if e = ErrUnexpectedEOF then [EvClose] else []))
                   | (buffer, None, rest') \<Rightarrow>
                       (case unmarshal buffer of
                          Inl e \<Rightarrow>
                            (Inl (Err e),
                             [EvRead MaxVarintLen64, EvMake (unat sz), EvReadFull (unat sz),
                              EvUnmarshal buffer])
                        | Inr msg \<Rightarrow>
                            (case check_message verify msg of
                               (r, evs) \<Rightarrow>
                                 (r, [EvRead MaxVarintLen64, EvMake (unat sz),
                                      EvReadFull (unat sz), EvUnmarshal buffer] @ evs)))))))"

text \<open>
  The whole function. \<open>accepted\<close> is the result of \<^verbatim>\<open>session.AcceptStream()\<close>.
\<close>

definition receiveMessage :: "(bytes \<Rightarrow> io_error + message) \<Rightarrow> (bytes \<Rightarrow> bytes \<Rightarrow> bytes \<Rightarrow> bool)
    \<Rightarrow> io_error + stream \<Rightarrow> time \<Rightarrow> (error + message) \<times> event list" where
  "receiveMessage unmarshal verify accepted timeout =
     (case accepted of
        Inl e \<Rightarrow> (Inl (Err e), [])
      | Inr st \<Rightarrow>
          (case set_deadline_err st of
             Some e \<Rightarrow> (Inl (Err e), [EvSetDeadline timeout, EvClose])
           | None \<Rightarrow>
               (case receiveMessage_body unmarshal verify st of
                  (r, evs) \<Rightarrow>
                    (r, EvSetDeadline timeout # evs @ [EvSetDeadline None, EvClose]))))"

section \<open>Write\<close>

text \<open>
  Modelled from the spec: the types \<^verbatim>\<open>Packet\<close> and \<^verbatim>\<open>Network\<close> are not among the
  sources. A packet has the three fields \<^verbatim>\<open>Write\<close> gives it: the target address, the
  message, and \<^verbatim>\<open>Result\<close>, the completion slot, a channel of \<^verbatim>\<open>interface{}\<close> values.
  A channel value is a reference: here the address of the channel in a heap of channels.
\<close>

text \<open>A value sent on the completion slot: an error, or anything else.\<close>

datatype result_value = ErrorValue error | OtherValue

record channel =
  chan_cap :: nat
  chan_buf :: "result_value list"
  chan_closed :: bool

type_synonym heap = "channel list"

record packet =
  RemoteAddress :: string
  Payload :: message
  Result :: nat

text \<open>\<^verbatim>\<open>make(chan interface{}, n)\<close>: a new, empty, open channel at an address not yet in use.\<close>

definition make_chan :: "heap \<Rightarrow> nat \<Rightarrow> nat \<times> heap" where
  "make_chan h n = (length h, h @ [\<lparr>chan_cap = n, chan_buf = [], chan_closed = False\<rparr>])"

text \<open>
  A send \<^verbatim>\<open>c <- v\<close> while no receiver waits on the channel: it panics on a closed
  channel, goes into the buffer when there is room, and blocks otherwise (always, on the
  nil channel).
\<close>

datatype send_outcome = Sent heap | SendBlocks | SendPanics

definition chan_send :: "heap \<Rightarrow> nat \<Rightarrow> result_value \<Rightarrow> send_outcome" where
  "chan_send h a v =
     (if length h \<le> a then SendBlocks
      else if chan_closed (h ! a) then SendPanics
      else if length (chan_buf (h ! a)) < chan_cap (h ! a)
      then Sent (h[a := (h ! a)\<lparr>chan_buf := chan_buf (h ! a) @ [v]\<rparr>])
      else SendBlocks)"

text \<open>A receive \<^verbatim>\<open><-c\<close> that finds a value in the buffer; \<open>None\<close> when there is none.\<close>

definition chan_recv :: "heap \<Rightarrow> nat \<Rightarrow> (result_value \<times> heap) option" where
  "chan_recv h a =
     (if length h \<le> a then None
      else
        (case chan_buf (h ! a) of
           [] \<Rightarrow> None
         | v # vs \<Rightarrow> Some (v, h[a := (h ! a)\<lparr>chan_buf := vs\<rparr>])))"

text \<open>
  What the other goroutines do during one call of \<^verbatim>\<open>Write\<close>, in nanoseconds: after
  how long the send on \<^verbatim>\<open>n.SendQueue\<close> goes through (\<open>None\<close>: never), after how long,
  counted from the start of the \<^verbatim>\<open>select\<close>, the consumer sends which value on the
  completion slot (\<open>None\<close>: never), and which case the \<^verbatim>\<open>select\<close> takes when the value
  and the timer are ready at the same instant.
\<close>

record world =
  queue_accepts_after :: "nat option"
  completion :: "(nat \<times> result_value) option"
  select_takes_result :: bool

text \<open>
  \<^verbatim>\<open>Write\<close>. The result is \<open>None\<close> when the call never returns; otherwise the time the
  caller was blocked, the returned error (\<open>None\<close> for nil), the packet, and the heap at
  the return. \<^verbatim>\<open>3 * time.Second\<close> is 3,000,000,000 nanoseconds.
\<close>

definition Write :: "world \<Rightarrow> heap \<Rightarrow> string \<Rightarrow> message
    \<Rightarrow> (nat \<times> error option \<times> packet \<times> heap) option" where
  "Write w h address msg =
     (case make_chan h 1 of
        (r, h1) \<Rightarrow>
          (case queue_accepts_after w of
             None \<Rightarrow> None
           | Some q \<Rightarrow>
               (case completion w of
                  None \<Rightarrow>
                    Some (q + 3 * 1000000000, Some ErrTimedOut,
                          \<lparr>RemoteAddress = address, Payload = msg, Result = r\<rparr>, h1)
                | Some (d, raw) \<Rightarrow>
                    (if d < 3 * 1000000000 \<or> (d = 3 * 1000000000 \<and> select_takes_result w)
                     then
                       (case chan_send h1 r raw of
                          Sent h2 \<Rightarrow>
                            (case chan_recv h2 r of
                               Some (ErrorValue e, h3) \<Rightarrow>
                                 Some (q + d, Some e,
                                       \<lparr>RemoteAddress = address, Payload = msg, Result = r\<rparr>, h3)
                             | Some (OtherValue, h3) \<Rightarrow>
                                 Some (q + d, None,
                                       \<lparr>RemoteAddress = address, Payload = msg, Result = r\<rparr>, h3)
                             | None \<Rightarrow> None)
                        | SendBlocks \<Rightarrow> None
                        | SendPanics \<Rightarrow> None)
                     else
                       Some (q + 3 * 1000000000, Some ErrTimedOut,
                             \<lparr>RemoteAddress = address, Payload = msg, Result = r\<rparr>, h1)))))"

section \<open>Streams used as examples\<close>

text \<open>
  A stream on which \<^verbatim>\<open>SetDeadline\<close> succeeds, which delivers the given chunks and then
  meets the given error, and whose writer takes every byte.
\<close>

definition incoming :: "bytes list \<Rightarrow> io_error \<Rightarrow> stream" where
  "incoming cs e =
     \<lparr>set_deadline_err = None, chunks = cs, read_end = e,
      write_result = (\<lambda>bs. (length bs, None)), flush_err = None\<rparr>"

text \<open>
  Collaborators for the examples: a toy wire format in which a body of four bytes
  \<open>[k, v, g1, g2]\<close> is a message with public key \<open>[k]\<close>, payload \<open>[v]\<close>, address
  \<open>''a:1''\<close> and signature \<open>[g1, g2]\<close>, and a body of one byte is a message with a
  payload and nothing else, and any other body is reported as ending too early; and a toy
  signature check that accepts the key followed by the payload.
\<close>

definition example_message :: "byte \<Rightarrow> byte \<Rightarrow> bytes \<Rightarrow> message" where
  "example_message k v g =
     \<lparr>Message = Some \<lparr>TypeUrl = [], Value = [v]\<rparr>,
      Sender = Some \<lparr>PublicKey = Some [k], Address = ''a:1''\<rparr>,
      Signature = Some g\<rparr>"

definition example_unmarshal :: "bytes \<Rightarrow> io_error + message" where
  "example_unmarshal bs =
     (case bs of
        [k, v, g1, g2] \<Rightarrow> Inr (example_message k v [g1, g2])
      | [v] \<Rightarrow> Inr \<lparr>Message = Some \<lparr>TypeUrl = [], Value = [v]\<rparr>, Sender = None,
                      Signature = None\<rparr>
      | _ \<Rightarrow> Inl ErrUnexpectedEOF)"

definition example_marshal :: "message \<Rightarrow> io_error + bytes" where
  "example_marshal m =
     (case (Message m, Sender m, Signature m) of
        (Some a, Some s, Some g) \<Rightarrow>
          Inr (slice_bytes (PublicKey s) @ Value a @ g)
      | _ \<Rightarrow> Inl (IOError 0))"

definition example_verify :: "bytes \<Rightarrow> bytes \<Rightarrow> bytes \<Rightarrow> bool" where
  "example_verify k v g = (g = k @ v)"

section \<open>Codec lemmas\<close>

lemma bit_0x80: "bit (0x80 :: byte) n \<longleftrightarrow> n = 7"
proof -
  have "(0x80 :: byte) = push_bit 7 1" by simp
  then show ?thesis by (simp only: bit_push_bit_iff bit_1_iff) (auto simp: bit_simps)
qed

lemma bit_0x7f: "bit (0x7f :: byte) n \<longleftrightarrow> n < 7"
proof -
  have "(0x7f :: byte) = mask 7" by (simp add: mask_eq_exp_minus_1)
  then show ?thesis by (simp only: bit_mask_iff) auto
qed

lemma cont_byte_low: "ucast (((ucast (x::uint64) :: byte) OR 0x80) AND 0x7f) = take_bit 7 x"
  apply (rule bit_word_eqI)
  apply (simp only: bit_ucast_iff bit_and_iff bit_or_iff bit_0x80 bit_0x7f bit_take_bit_iff)
  apply auto
  done

lemma cont_byte_ge: "\<not> ((ucast (x::uint64) :: byte) OR 0x80) < 0x80"
  by (simp add: not_less le_word_or1)

lemma last_byte_less: "\<not> 0x80 \<le> (x::uint64) \<Longrightarrow> (ucast x :: byte) < 0x80"
  apply (simp add: not_le word_less_nat_alt)
  apply (simp add: unsigned_ucast_eq take_bit_eq_mod unat_mod)
  done

lemma last_byte_ucast: "\<not> 0x80 \<le> (x::uint64) \<Longrightarrow> (ucast (ucast x :: byte) :: uint64) = x"
  apply (simp add: not_le word_less_nat_alt)
  apply (rule word_unat_eq_iff[THEN iffD2])
  apply (simp add: unsigned_ucast_eq take_bit_eq_mod unat_mod)
  done

lemma take_or_drop_7: "take_bit 7 (x::uint64) OR push_bit 7 (drop_bit 7 x) = x"
  apply (rule bit_word_eqI)
  apply (simp only: bit_or_iff bit_take_bit_iff bit_push_bit_iff bit_drop_bit_eq)
  apply (subgoal_tac "n < 7 \<or> 7 + (n - 7) = n")
   apply auto[1]
  apply arith
  done

lemma push_take_or_drop:
  "push_bit s (take_bit 7 (x::uint64)) OR push_bit (s + 7) (drop_bit 7 x) = push_bit s x"
proof -
  have "push_bit s (take_bit 7 x) OR push_bit (s + 7) (drop_bit 7 x)
      = push_bit s (take_bit 7 x OR push_bit 7 (drop_bit 7 x))"
    by (simp add: push_bit_or push_bit_push_bit add.commute del: push_bit_take_bit)
  then show ?thesis by (simp only: take_or_drop_7)
qed

lemma length_uvarint_bytes_pos: "0 < length (uvarint_bytes x)"
  by (subst uvarint_bytes.simps) simp

lemma length_uvarint_bytes_le:
  "0 < k \<Longrightarrow> unat x < 128 ^ k \<Longrightarrow> length (uvarint_bytes x) \<le> k"
proof (induction k arbitrary: x)
  case 0
  then show ?case by simp
next
  case (Suc k)
  show ?case
  proof (cases "0x80 \<le> x")
    case False
    then show ?thesis by (subst uvarint_bytes.simps) simp
  next
    case True
    then have ge: "128 \<le> unat x" by (simp add: word_le_nat_alt)
    have d: "unat (drop_bit 7 x) = unat x div 128"
      by (simp add: unat_drop_bit_eq drop_bit_eq_div unat_div)
    from Suc.prems have "unat x div 128 < 128 ^ k"
      by (simp add: less_mult_imp_div_less mult.commute)
    with ge have k: "0 < k" by (cases k) auto
    from Suc.IH [OF k] d \<open>unat x div 128 < 128 ^ k\<close>
    have "length (uvarint_bytes (drop_bit 7 x)) \<le> k" by simp
    with True show ?thesis by (subst uvarint_bytes.simps) simp
  qed
qed

lemma length_uvarint_bytes_10: "length (uvarint_bytes x) \<le> 10"
proof -
  have "unat x < 2 ^ 64" using unsigned_less [of x] by simp
  also have "(2::nat) ^ 64 \<le> 128 ^ 10" by simp
  finally show ?thesis by (intro length_uvarint_bytes_le) simp_all
qed

lemma PutUvarint_loop_eq:
  "i + length (uvarint_bytes x) \<le> length buf \<Longrightarrow>
   PutUvarint_loop i buf x =
     Some (take i buf @ uvarint_bytes x @ drop (i + length (uvarint_bytes x)) buf,
           i + length (uvarint_bytes x))"
proof (induction i buf x rule: PutUvarint_loop.induct)
  case (1 i buf x)
  have pos: "0 < length (uvarint_bytes x)" by (rule length_uvarint_bytes_pos)
  with "1.prems" have i: "i < length buf" by linarith
  show ?case
  proof (cases "0x80 \<le> x")
    case True
    let ?b = "(ucast x OR 0x80) :: byte"
    let ?r = "uvarint_bytes (drop_bit 7 x)"
    have u: "uvarint_bytes x = ?b # ?r"
      using True by (subst uvarint_bytes.simps) simp
    from "1.prems" u have le: "Suc i + length ?r \<le> length (buf[i := ?b])" by simp
    have "PutUvarint_loop i buf x = PutUvarint_loop (Suc i) (buf[i := ?b]) (drop_bit 7 x)"
      using True i by (subst PutUvarint_loop.simps) simp
    also have "\<dots> = Some (take (Suc i) (buf[i := ?b]) @ ?r @ drop (Suc i + length ?r) (buf[i := ?b]),
                          Suc i + length ?r)"
      by (rule "1.IH" [OF True i le])
    also have "take (Suc i) (buf[i := ?b]) = take i buf @ [?b]"
      using i by (simp add: take_Suc_conv_app_nth)
    finally show ?thesis using u by simp
  next
    case False
    have u: "uvarint_bytes x = [ucast x]"
      using False by (subst uvarint_bytes.simps) simp
    have "buf[i := ucast x] = take i buf @ [ucast x] @ drop (Suc i) buf"
      using i by (simp add: upd_conv_take_nth_drop)
    then show ?thesis using False i u by (subst PutUvarint_loop.simps) simp
  qed
qed

lemma Uvarint_loop_bytes:
  "i + length (uvarint_bytes x) \<le> 9 \<Longrightarrow>
   Uvarint_loop i acc s (uvarint_bytes x @ rest) =
     (acc OR push_bit s x, int (i + length (uvarint_bytes x)))"
proof (induction x arbitrary: i acc s rule: uvarint_bytes.induct)
  case (1 x)
  have pos: "0 < length (uvarint_bytes x)" by (rule length_uvarint_bytes_pos)
  with "1.prems" have i: "i < 9" by linarith
  show ?case
  proof (cases "0x80 \<le> x")
    case True
    let ?b = "(ucast x OR 0x80) :: byte"
    let ?r = "uvarint_bytes (drop_bit 7 x)"
    have u: "uvarint_bytes x = ?b # ?r"
      using True by (subst uvarint_bytes.simps) simp
    from "1.prems" u have le: "(i + 1) + length ?r \<le> 9" by simp
    have "Uvarint_loop i acc s (uvarint_bytes x @ rest)
        = Uvarint_loop (i + 1) (acc OR push_bit s (take_bit 7 x)) (s + 7) (?r @ rest)"
      using i by (simp add: u cont_byte_ge cont_byte_low MaxVarintLen64_def)
    also have "\<dots> = ((acc OR push_bit s (take_bit 7 x)) OR push_bit (s + 7) (drop_bit 7 x),
                      int ((i + 1) + length ?r))"
      by (rule "1.IH" [OF True le])
    also have "(acc OR push_bit s (take_bit 7 x)) OR push_bit (s + 7) (drop_bit 7 x)
             = acc OR push_bit s x"
      by (simp only: or.assoc push_take_or_drop)
    finally show ?thesis using u by simp
  next
    case False
    have u: "uvarint_bytes x = [ucast x]"
      using False by (subst uvarint_bytes.simps) simp
    show ?thesis
      using i False by (simp add: u last_byte_less last_byte_ucast MaxVarintLen64_def)
  qed
qed

lemma cont_byte_arith: "((ucast (x::uint64) :: byte) OR 0x80) = of_nat (128 + unat x mod 128)"
proof -
  have m: "unat x mod 128 = unat (take_bit 7 x)"
    by (simp add: take_bit_eq_mod unat_mod)
  have "(of_nat (128 + unat x mod 128) :: byte) = of_nat 128 + of_nat (unat (take_bit 7 x))"
    by (simp only: m of_nat_add)
  also have "\<dots> = 0x80 + ucast (take_bit 7 x)"
    by (simp only: of_nat_unat of_nat_numeral)
  also have "\<dots> = 0x80 OR ucast (take_bit 7 x)"
    by (rule disjunctive_add) (simp only: bit_0x80 bit_ucast_iff bit_take_bit_iff, arith)
  also have "\<dots> = ucast x OR 0x80"
    apply (rule bit_word_eqI)
    apply (simp only: bit_ucast_iff bit_or_iff bit_0x80 bit_take_bit_iff)
    apply auto
    done
  finally show ?thesis by simp
qed

lemma uvarint_bytes_min: "uvarint_bytes x = min_uvarint (unat x)"
proof (induction x rule: uvarint_bytes.induct)
  case (1 x)
  show ?case
  proof (cases "0x80 \<le> x")
    case True
    then have ge: "\<not> unat x < 128" by (simp add: word_le_nat_alt)
    have d: "unat (drop_bit 7 x) = unat x div 128"
      by (simp add: unat_drop_bit_eq drop_bit_eq_div unat_div)
    have "uvarint_bytes x = (ucast x OR 0x80) # uvarint_bytes (drop_bit 7 x)"
      using True by (subst uvarint_bytes.simps) simp
    also have "\<dots> = of_nat (128 + unat x mod 128) # min_uvarint (unat x div 128)"
      by (simp only: cont_byte_arith "1.IH" [OF True] d)
    also have "\<dots> = min_uvarint (unat x)"
      using ge by (subst (2) min_uvarint.simps) simp
    finally show ?thesis .
  next
    case False
    then have lt: "unat x < 128" by (simp add: word_le_nat_alt)
    have "uvarint_bytes x = [ucast x]"
      using False by (subst uvarint_bytes.simps) simp
    also have "\<dots> = min_uvarint (unat x)"
      using lt by (subst min_uvarint.simps) simp
    finally show ?thesis .
  qed
qed

lemma prefix_with_size_bytes:
  "prefix_with_size bs =
     Some (uvarint_bytes (of_nat (length bs))
           @ replicate (10 - length (uvarint_bytes (of_nat (length bs)))) 0 @ bs)"
proof -
  let ?x = "of_nat (length bs) :: uint64"
  have le: "0 + length (uvarint_bytes ?x) \<le> length (replicate 10 (0::byte))"
    using length_uvarint_bytes_10 [of ?x] by simp
  show ?thesis
    unfolding prefix_with_size_def PutUvarint_def MaxVarintLen64_def
    by (simp add: PutUvarint_loop_eq [OF le])
qed

lemma Uvarint_bytes:
  "length (uvarint_bytes x) \<le> 9 \<Longrightarrow>
   Uvarint (uvarint_bytes x @ rest) = (x, int (length (uvarint_bytes x)))"
  unfolding Uvarint_def using Uvarint_loop_bytes [of 0 x 0 0 rest] by simp

lemma ReadAtLeast_loop_enough:
  "length got \<le> m \<Longrightarrow> m \<le> length got + length (concat cs) \<Longrightarrow>
   \<exists>rest. ReadAtLeast_loop m got cs e = (got @ take (m - length got) (concat cs), None, rest)
         \<and> concat rest = drop (m - length got) (concat cs)"
proof (induction cs arbitrary: got)
  case Nil
  then show ?case by simp
next
  case (Cons c cs)
  show ?case
  proof (cases "length got < m")
    case False
    with Cons.prems show ?thesis by simp
  next
    case True
    show ?thesis
    proof (cases "m - length got < length c")
      case True
      with \<open>length got < m\<close> show ?thesis by simp
    next
      case False
      with Cons.prems True have a: "length (got @ c) \<le> m"
        and b: "m \<le> length (got @ c) + length (concat cs)" by simp_all
      from Cons.IH [OF a b] obtain rest where
        r: "ReadAtLeast_loop m (got @ c) cs e
              = ((got @ c) @ take (m - length (got @ c)) (concat cs), None, rest)"
        and cr: "concat rest = drop (m - length (got @ c)) (concat cs)" by blast
      from False True r cr show ?thesis by simp
    qed
  qed
qed


lemma ReadFull_enough:
  "m \<le> length (concat cs) \<Longrightarrow>
   \<exists>rest. ReadFull m cs e = (take m (concat cs), None, rest)"
  using ReadAtLeast_loop_enough [of "[]" m cs e] by (auto simp: ReadFull_def)


lemma check_message_cases:
  "check_message V m = (Inl ErrInvalidMessage, []) \<and> headers_invalid m
   \<or> (\<exists>a s k g. Message m = Some a \<and> Sender m = Some s \<and> PublicKey s = Some k
         \<and> Signature m = Some g \<and> Address s \<noteq> [] \<and> \<not> headers_invalid m
         \<and> check_message V m =
             (if V k (Value a) g then Inr m else Inl ErrBadSignature, [EvVerify k (Value a) g]))"
  by (auto simp: check_message_def headers_invalid_def slice_bytes_def split: option.splits)

lemma headers_invalid_iff:
  "headers_invalid m \<longleftrightarrow>
     Message m = None \<or> Sender m = None
     \<or> (\<exists>s. Sender m = Some s \<and> (PublicKey s = None \<or> Address s = []))
     \<or> Signature m = None"
  by (auto simp: headers_invalid_def split: option.splits)

lemma receiveMessage_body_cases:
  "(\<exists>e evs. receiveMessage_body U V st = (Inl e, evs)
        \<and> (\<forall>b. EvUnmarshal b \<notin> set evs) \<and> (\<forall>k v g. EvVerify k v g \<notin> set evs))
   \<or> (\<exists>n b e. U b = Inl e
        \<and> receiveMessage_body U V st =
            (Inl (Err e), [EvRead 10, EvMake n, EvReadFull n, EvUnmarshal b]))
   \<or> (\<exists>n b m. U b = Inr m
        \<and> receiveMessage_body U V st =
            (fst (check_message V m),
             [EvRead 10, EvMake n, EvReadFull n, EvUnmarshal b] @ snd (check_message V m)))"
  by (auto simp: receiveMessage_body_def MaxVarintLen64_def
      split: sum.splits prod.splits if_splits option.splits)

lemma receiveMessage_cases:
  "(\<exists>e evs. receiveMessage U V acc t = (Inl e, evs)
        \<and> (\<forall>b. EvUnmarshal b \<notin> set evs) \<and> (\<forall>k v g. EvVerify k v g \<notin> set evs))
   \<or> (\<exists>n b e. U b = Inl e
        \<and> receiveMessage U V acc t =
            (Inl (Err e),
             [EvSetDeadline t, EvRead 10, EvMake n, EvReadFull n, EvUnmarshal b,
              EvSetDeadline None, EvClose]))
   \<or> (\<exists>n b m. U b = Inr m
        \<and> receiveMessage U V acc t =
            (fst (check_message V m),
             [EvSetDeadline t, EvRead 10, EvMake n, EvReadFull n, EvUnmarshal b]
             @ snd (check_message V m) @ [EvSetDeadline None, EvClose]))"
proof (cases acc)
  case (Inl e)
  then show ?thesis by (simp add: receiveMessage_def)
next
  case (Inr st)
  show ?thesis
  proof (cases "set_deadline_err st")
    case (Some e)
    with Inr show ?thesis by (simp add: receiveMessage_def)
  next
    case None
    with Inr have r: "receiveMessage U V acc t =
        (fst (receiveMessage_body U V st),
         EvSetDeadline t # snd (receiveMessage_body U V st) @ [EvSetDeadline None, EvClose])"
      by (simp add: receiveMessage_def split: prod.splits)
    from receiveMessage_body_cases [of U V st] show ?thesis
      unfolding r by (elim disjE exE conjE) simp_all
  qed
qed

lemma reader_Read_probe:
  "10 \<le> length c \<Longrightarrow>
   \<exists>rest. reader_Read 10 (c # cs) e = Inr (take 10 c, rest) \<and> concat rest = drop 10 (concat (c # cs))"
  by simp

lemma receiveMessage_body_probe:
  assumes ch: "chunks st = c # cs" and len: "10 \<le> length c"
    and uv: "Uvarint (take 10 c) = (sz, read)" and rd: "0 < read" and le: "sz \<le> 4000000"
    and enough: "10 + unat sz \<le> length (concat (c # cs))"
  shows "\<exists>post. receiveMessage_body U V st =
           (fst (receiveMessage_body U V st),
            [EvRead 10, EvMake (unat sz), EvReadFull (unat sz),
             EvUnmarshal (take (unat sz) (drop 10 (concat (c # cs))))] @ post)"
proof -
  from reader_Read_probe [OF len, of cs "read_end st"] obtain rest where
    rr: "reader_Read 10 (c # cs) (read_end st) = Inr (take 10 c, rest)"
    and cr: "concat rest = drop 10 (concat (c # cs))" by blast
  from enough cr have "unat sz \<le> length (concat rest)" by simp
  from ReadFull_enough [OF this, of "read_end st"] obtain rest' where
    rf: "ReadFull (unat sz) rest (read_end st) = (take (unat sz) (concat rest), None, rest')"
    by blast
  from le have nle: "\<not> 4000000 < sz" by (simp add: not_less)
  from len have l10: "length (take 10 c) = 10" by simp
  show ?thesis
    unfolding receiveMessage_body_def MaxVarintLen64_def ch rr
    using uv rd nle rf cr l10
    by (auto split: sum.splits option.splits prod.splits)
qed

lemma unat_of_nat_length: "n < 2 ^ 64 \<Longrightarrow> unat (of_nat n :: uint64) = n"
  by (simp add: unat_of_nat)

lemma prefix_with_size_min:
  assumes "length b < 2 ^ 64"
  shows "prefix_with_size b =
     Some (min_uvarint (length b) @ replicate (10 - length (min_uvarint (length b))) 0 @ b)"
  using assms by (simp add: prefix_with_size_bytes uvarint_bytes_min unat_of_nat_length)

lemma length_min_uvarint_10: "n < 2 ^ 64 \<Longrightarrow> length (min_uvarint n) \<le> 10"
  using length_uvarint_bytes_10 [of "of_nat n"] by (simp add: uvarint_bytes_min unat_of_nat_length)

lemma sendMessage_events:
  assumes "set_deadline_err st = None" and "marshal msg = Inr b"
    and "prefix_with_size b = Some frame"
  shows "\<exists>post. snd (sendMessage marshal (Inr st) now msg) =
           [EvSetDeadline (Some (now + 1000000000)), EvWrite frame] @ post"
  using assms by (auto simp: sendMessage_def sendMessage_body_def
      split: sum.splits option.splits prod.splits if_splits)

lemma frame_received:
  assumes len: "length b \<le> 4000000"
    and fr: "prefix_with_size b = Some frame"
    and ch: "chunks st = c # cs" and c10: "10 \<le> length c"
    and cc: "concat (c # cs) = frame"
  shows "Uvarint (take 10 frame) = (of_nat (length b), int (length (min_uvarint (length b))))
       \<and> (\<exists>post. receiveMessage_body U V st =
           (fst (receiveMessage_body U V st),
            [EvRead 10, EvMake (length b), EvReadFull (length b), EvUnmarshal b] @ post))"
proof -
  let ?x = "of_nat (length b) :: uint64"
  let ?k = "length (uvarint_bytes ?x)"
  from len have ux: "unat ?x = length b" by (simp add: unat_of_nat_length)
  with len have "unat ?x < 128 ^ 4" by simp
  then have k4: "?k \<le> 4" by (intro length_uvarint_bytes_le) simp_all
  from fr have f: "frame = uvarint_bytes ?x @ replicate (10 - ?k) 0 @ b"
    by (simp add: prefix_with_size_bytes)
  from k4 have t10: "take 10 frame = uvarint_bytes ?x @ replicate (10 - ?k) 0"
    and d10: "drop 10 frame = b" by (simp_all add: f)
  from c10 cc have tc: "take 10 c = take 10 frame" by auto
  from k4 have uv: "Uvarint (take 10 frame) = (?x, int ?k)"
    unfolding t10 by (intro Uvarint_bytes) simp
  have pos: "0 < int ?k" using length_uvarint_bytes_pos [of ?x] by simp
  from len ux have le: "?x \<le> 4000000" by (simp add: word_le_nat_alt)
  from k4 have "length frame = 10 + length b" by (simp add: f)
  with cc ux have enough: "10 + unat ?x \<le> length (concat (c # cs))" by simp
  have body: "take (length b) (drop 10 (concat (c # cs))) = b"
    by (simp only: cc d10 take_all order_refl)
  from receiveMessage_body_probe [OF ch c10 uv [folded tc] pos le enough, of U V]
  have "\<exists>post. receiveMessage_body U V st =
           (fst (receiveMessage_body U V st),
            [EvRead 10, EvMake (length b), EvReadFull (length b), EvUnmarshal b] @ post)"
    by (simp only: ux body)
  with uv show ?thesis by (simp only: uvarint_bytes_min ux simp_thms)
qed

lemma replicate_10: "replicate 10 x = [x, x, x, x, x, x, x, x, x, x]"
  by (simp add: eval_nat_numeral)

lemma replicate_numeral: "replicate (numeral k) x = x # replicate (pred_numeral k) x"
  by (simp add: numeral_eq_Suc)



lemma sendMessage_body_events:
  "EvClose \<notin> set (snd (sendMessage_body marshal st msg))
   \<and> (\<forall>d. EvSetDeadline d \<notin> set (snd (sendMessage_body marshal st msg)))"
  by (auto simp: sendMessage_body_def split: sum.splits option.splits prod.splits if_splits)

lemma check_message_events:
  "EvClose \<notin> set (snd (check_message V m))
   \<and> (\<forall>d. EvSetDeadline d \<notin> set (snd (check_message V m)))"
  by (auto simp: check_message_def split: option.splits)

lemma check_message_no_deadline:
  "check_message V m = (r, evs) \<Longrightarrow> EvSetDeadline d \<in> set evs \<Longrightarrow> False"
  using check_message_events [of V m] by simp

lemma receiveMessage_body_events:
  "\<forall>d. EvSetDeadline d \<notin> set (snd (receiveMessage_body U V st))"
  by (auto simp: receiveMessage_body_def dest: check_message_no_deadline
      split: sum.splits prod.splits if_splits option.splits)

lemma chan_send_fresh:
  "a < length h \<Longrightarrow> h ! a = \<lparr>chan_cap = 1, chan_buf = [], chan_closed = False\<rparr> \<Longrightarrow>
   chan_send h a v = Sent (h[a := \<lparr>chan_cap = 1, chan_buf = [v], chan_closed = False\<rparr>])"
  by (simp add: chan_send_def)

lemma Write_enqueued:
  assumes "queue_accepts_after w = Some q"
  shows "\<exists>el r h1. Write w h a m =
            Some (el, r, \<lparr>RemoteAddress = a, Payload = m, Result = length h\<rparr>, h1)
         \<and> q \<le> el \<and> el \<le> q + 3000000000
         \<and> (completion w = None \<longrightarrow> el = q + 3000000000 \<and> r = Some ErrTimedOut)
         \<and> h1 = h @ [\<lparr>chan_cap = 1, chan_buf = [], chan_closed = False\<rparr>]"
proof (cases "completion w")
  case None
  with assms show ?thesis by (simp add: Write_def make_chan_def)
next
  case (Some dr)
  obtain d raw where dr: "dr = (d, raw)" by (cases dr)
  let ?c = "\<lparr>chan_cap = 1, chan_buf = [], chan_closed = False\<rparr>"
  let ?h1 = "h @ [?c]"
  have s: "chan_send ?h1 (length h) raw
         = Sent (?h1[length h := \<lparr>chan_cap = 1, chan_buf = [raw], chan_closed = False\<rparr>])"
    by (rule chan_send_fresh) simp_all
  have r: "chan_recv (?h1[length h := \<lparr>chan_cap = 1, chan_buf = [raw], chan_closed = False\<rparr>])
             (length h) = Some (raw, ?h1)"
    by (simp add: chan_recv_def)
  show ?thesis
    using assms Some dr s r
    by (cases raw) (auto simp: Write_def make_chan_def)
qed


lemma Write_never_enqueued:
  "queue_accepts_after w = None \<Longrightarrow> Write w h a m = None"
  by (simp add: Write_def make_chan_def)

lemma Write_result_slot:
  "Write w h a m = Some (el, r, pkt, h1) \<Longrightarrow> Result pkt = length h"
  by (auto simp: Write_def make_chan_def
      split: option.splits prod.splits if_splits send_outcome.splits result_value.splits)

lemma or_nat_le_add: "(m::nat) OR n \<le> m + n"
proof -
  have "0 \<le> int m AND int n" by simp
  with plus_and_or [of "int m" "int n"] have "int m OR int n \<le> int m + int n" by linarith
  then have "int (m OR n) \<le> int (m + n)" by (simp add: of_nat_or_eq)
  then show ?thesis by (simp only: of_nat_le_iff)
qed

lemma unat_or_le: "unat ((a::uint64) OR c) \<le> unat a + unat c"
  by (simp add: unsigned_or_eq or_nat_le_add)

lemma unat_push_bit_le: "unat (push_bit s (y::uint64)) \<le> unat y * 2 ^ s"
proof -
  have "unat (push_bit s y) = take_bit 64 (push_bit s (unat y))"
    by (simp only: unsigned_push_bit_eq) simp
  also have "\<dots> \<le> push_bit s (unat y)" by (rule take_bit_nat_less_eq_self)
  also have "\<dots> = unat y * 2 ^ s" by (simp only: push_bit_eq_mult)
  finally show ?thesis .
qed

lemma digit_bound:
  assumes "unat (acc::uint64) < 128 ^ i" and "unat (y::uint64) < 128"
  shows "unat (acc OR push_bit (7 * i) y) < 128 ^ Suc i"
proof -
  have p: "(2::nat) ^ (7 * i) = 128 ^ i" by (simp add: power_mult)
  from assms(2) have "unat y \<le> 127" by simp
  then have "unat y * 128 ^ i \<le> 127 * 128 ^ i" by (rule mult_le_mono1)
  with unat_push_bit_le [of "7 * i" y] have "unat (push_bit (7 * i) y) \<le> 127 * 128 ^ i"
    by (simp only: p)
  with unat_or_le [of acc "push_bit (7 * i) y"] assms(1) show ?thesis by simp
qed

lemma byte_digit: "(b::byte) < 0x80 \<Longrightarrow> unat (ucast b :: uint64) < 128"
  by (simp add: word_less_nat_alt unsigned_ucast_eq take_bit_eq_mod)

lemma byte_low_digit: "unat (ucast ((b::byte) AND 0x7f) :: uint64) < 128"
proof -
  have "(b AND 0x7f) \<le> 0x7f" by (rule word_and_le1)
  then have "unat (b AND 0x7f) \<le> 127" by (simp add: word_le_nat_alt)
  then show ?thesis by (simp add: unsigned_ucast_eq take_bit_eq_mod)
qed

lemma Uvarint_loop_bound:
  "Uvarint_loop i acc s bs = (x, n) \<Longrightarrow> 0 < n \<Longrightarrow> unat acc < 128 ^ i \<Longrightarrow> s = 7 * i \<Longrightarrow>
   0 < nat n \<and> unat x < 128 ^ nat n"
proof (induction bs arbitrary: i acc s)
  case Nil
  then show ?case by simp
next
  case (Cons b bs)
  show ?case
  proof (cases "i = MaxVarintLen64")
    case True
    with Cons.prems show ?thesis by simp
  next
    case ni: False
    show ?thesis
    proof (cases "b < 0x80")
      case True
      with ni Cons.prems have x: "x = acc OR push_bit (7 * i) (ucast b)" and n: "n = int i + 1"
        by (auto split: if_splits)
      from digit_bound [OF Cons.prems(3) byte_digit [OF True]] x n
      show ?thesis by (simp add: nat_add_distrib)
    next
      case False
      with ni Cons.prems have r: "Uvarint_loop (i + 1)
          (acc OR push_bit (7 * i) (ucast (b AND 0x7f))) (s + 7) bs = (x, n)" by simp
      from digit_bound [OF Cons.prems(3) byte_low_digit [of b]]
      have a: "unat (acc OR push_bit (7 * i) (ucast (b AND 0x7f))) < 128 ^ (i + 1)" by simp
      from Cons.prems(4) have s: "s + 7 = 7 * (i + 1)" by simp
      from Cons.IH [OF r Cons.prems(2) a s] show ?thesis .
    qed
  qed
qed

lemma Uvarint_at_least_min:
  assumes "Uvarint bs = (x, n)" and "0 < n"
  shows "length (min_uvarint (unat x)) \<le> nat n"
proof -
  from assms have "0 < nat n \<and> unat x < 128 ^ nat n"
    unfolding Uvarint_def by (intro Uvarint_loop_bound [of 0 0 0 bs x n]) simp_all
  then have "length (uvarint_bytes x) \<le> nat n"
    by (intro length_uvarint_bytes_le) simp_all
  then show ?thesis by (simp add: uvarint_bytes_min)
qed

lemma check_message_no_make:
  "check_message V m = (r, evs) \<Longrightarrow> EvMake n \<in> set evs \<Longrightarrow> False"
  using check_message_cases [of V m] by (auto split: if_splits)

lemma receiveMessage_make_bound:
  "EvMake n \<in> set (snd (receiveMessage U V acc t)) \<Longrightarrow> n \<le> 4000000"
  by (auto simp: receiveMessage_def receiveMessage_body_def word_le_nat_alt word_less_nat_alt
      dest: check_message_no_make
      split: sum.splits prod.splits if_splits option.splits)

section \<open>The claims\<close>

text \<open>
  Claim C1. \<^verbatim>\<open>receiveMessage\<close> returns a message only if the verification
  capability succeeds on the sender's public key, the payload and the signature of that
  message; and when the body unmarshals to a message with every required field present
  whose signature does not verify, it returns the bad-signature error and no message.
\<close>

theorem receive_returns_only_verified:
  "(fst (receiveMessage U V acc t) = Inr m \<longrightarrow>
      (\<exists>a s k g. Message m = Some a \<and> Sender m = Some s \<and> PublicKey s = Some k
          \<and> Signature m = Some g \<and> V k (Value a) g))
   \<and> (EvUnmarshal b \<in> set (snd (receiveMessage U V acc' t')) \<and> U b = Inr m'
        \<and> Message m' = Some a' \<and> Sender m' = Some s' \<and> PublicKey s' = Some k'
        \<and> Address s' \<noteq> [] \<and> Signature m' = Some g' \<and> \<not> V k' (Value a') g'
      \<longrightarrow> fst (receiveMessage U V acc' t') = Inl ErrBadSignature)"
proof (rule conjI)
  show "fst (receiveMessage U V acc t) = Inr m \<longrightarrow>
      (\<exists>a s k g. Message m = Some a \<and> Sender m = Some s \<and> PublicKey s = Some k
          \<and> Signature m = Some g \<and> V k (Value a) g)"
  proof
    assume r: "fst (receiveMessage U V acc t) = Inr m"
    from receiveMessage_cases [of U V acc t] r
    obtain m0 where c: "fst (check_message V m0) = Inr m" by auto
    from check_message_cases [of V m0] c
    show "\<exists>a s k g. Message m = Some a \<and> Sender m = Some s \<and> PublicKey s = Some k
          \<and> Signature m = Some g \<and> V k (Value a) g"
      by (auto split: if_splits)
  qed
next
  show "EvUnmarshal b \<in> set (snd (receiveMessage U V acc' t')) \<and> U b = Inr m'
        \<and> Message m' = Some a' \<and> Sender m' = Some s' \<and> PublicKey s' = Some k'
        \<and> Address s' \<noteq> [] \<and> Signature m' = Some g' \<and> \<not> V k' (Value a') g'
      \<longrightarrow> fst (receiveMessage U V acc' t') = Inl ErrBadSignature"
  proof
    assume h: "EvUnmarshal b \<in> set (snd (receiveMessage U V acc' t')) \<and> U b = Inr m'
        \<and> Message m' = Some a' \<and> Sender m' = Some s' \<and> PublicKey s' = Some k'
        \<and> Address s' \<noteq> [] \<and> Signature m' = Some g' \<and> \<not> V k' (Value a') g'"
    have ev: "EvUnmarshal b \<notin> set (snd (check_message V x))" for x
      using check_message_cases [of V x] by auto
    from receiveMessage_cases [of U V acc' t'] h ev
    have "fst (receiveMessage U V acc' t') = fst (check_message V m')" by auto
    with check_message_cases [of V m'] h
    show "fst (receiveMessage U V acc' t') = Inl ErrBadSignature"
      by (auto simp: headers_invalid_iff)
  qed
qed


theorem receive_returns_only_verified_witness:
  "fst (receiveMessage example_unmarshal example_verify
          (Inr (incoming [[4, 0, 0, 0, 0, 0, 0, 0, 0, 0, 1, 2, 1, 2]] EOF)) None)
     = Inr (example_message 1 2 [1, 2])
   \<and> example_verify [1] [2] [1, 2]
   \<and> EvUnmarshal [1, 2, 9, 9]
       \<in> set (snd (receiveMessage example_unmarshal example_verify
          (Inr (incoming [[4, 0, 0, 0, 0, 0, 0, 0, 0, 0], [1, 2], [9, 9]] EOF)) (Some 5)))
   \<and> example_unmarshal [1, 2, 9, 9] = Inr (example_message 1 2 [9, 9])
   \<and> \<not> example_verify [1] [2] [9, 9]
   \<and> fst (receiveMessage example_unmarshal example_verify
          (Inr (incoming [[4, 0, 0, 0, 0, 0, 0, 0, 0, 0], [1, 2], [9, 9]] EOF)) (Some 5))
     = Inl ErrBadSignature"
  using receive_returns_only_verified
    [of example_unmarshal example_verify
        "Inr (incoming [[4, 0, 0, 0, 0, 0, 0, 0, 0, 0, 1, 2, 1, 2]] EOF)" None
        "example_message 1 2 [1, 2]" "[1, 2, 9, 9]"
        "Inr (incoming [[4, 0, 0, 0, 0, 0, 0, 0, 0, 0], [1, 2], [9, 9]] EOF)" "Some 5"
        "example_message 1 2 [9, 9]" "\<lparr>TypeUrl = [], Value = [2]\<rparr>"
        "\<lparr>PublicKey = Some [1], Address = ''a:1''\<rparr>" "[1]" "[9, 9]"]
  by (simp add: receiveMessage_def receiveMessage_body_def incoming_def MaxVarintLen64_def
      Uvarint_def ReadFull_def example_unmarshal_def example_message_def example_verify_def
      check_message_def headers_invalid_def slice_bytes_def)

text \<open>
  Claim C2. When the unmarshalled message lacks the payload, the sender, the sender's
  public key or the signature, or has an empty sender address, \<^verbatim>\<open>receiveMessage\<close>
  returns the invalid-message error and the verification capability is not invoked at all;
  and whenever the verification capability is invoked, it is on the fields of an
  unmarshalled message that has passed the check of the fields.
\<close>

theorem invalid_headers_rejected_before_verify:
  "(EvUnmarshal b \<in> set (snd (receiveMessage U V acc t)) \<and> U b = Inr m
      \<and> (Message m = None \<or> Sender m = None
          \<or> (\<exists>s. Sender m = Some s \<and> (PublicKey s = None \<or> Address s = []))
          \<or> Signature m = None)
     \<longrightarrow> fst (receiveMessage U V acc t) = Inl ErrInvalidMessage
         \<and> (\<forall>k v g. EvVerify k v g \<notin> set (snd (receiveMessage U V acc t))))
   \<and> (EvVerify k' v' g' \<in> set (snd (receiveMessage U V acc' t')) \<longrightarrow>
        (\<exists>b' m' a s. EvUnmarshal b' \<in> set (snd (receiveMessage U V acc' t')) \<and> U b' = Inr m'
            \<and> Message m' = Some a \<and> Sender m' = Some s \<and> PublicKey s = Some k'
            \<and> Address s \<noteq> [] \<and> Signature m' = Some g' \<and> Value a = v'))"
proof (rule conjI)
  let ?r = "receiveMessage U V acc t"
  show "EvUnmarshal b \<in> set (snd ?r) \<and> U b = Inr m
      \<and> (Message m = None \<or> Sender m = None
          \<or> (\<exists>s. Sender m = Some s \<and> (PublicKey s = None \<or> Address s = []))
          \<or> Signature m = None)
     \<longrightarrow> fst ?r = Inl ErrInvalidMessage \<and> (\<forall>k v g. EvVerify k v g \<notin> set (snd ?r))"
  proof
    assume h: "EvUnmarshal b \<in> set (snd ?r) \<and> U b = Inr m
      \<and> (Message m = None \<or> Sender m = None
          \<or> (\<exists>s. Sender m = Some s \<and> (PublicKey s = None \<or> Address s = []))
          \<or> Signature m = None)"
    then have inv: "headers_invalid m" by (simp add: headers_invalid_iff)
    have ev: "EvUnmarshal b \<notin> set (snd (check_message V x))" for x
      using check_message_cases [of V x] by auto
    from check_message_cases [of V m] inv
    have cm: "check_message V m = (Inl ErrInvalidMessage, [])" by auto
    from receiveMessage_cases [of U V acc t] h ev
    have "\<exists>n. ?r = (fst (check_message V m),
             [EvSetDeadline t, EvRead 10, EvMake n, EvReadFull n, EvUnmarshal b]
             @ snd (check_message V m) @ [EvSetDeadline None, EvClose])" by auto
    with cm show "fst ?r = Inl ErrInvalidMessage \<and> (\<forall>k v g. EvVerify k v g \<notin> set (snd ?r))"
      by auto
  qed
next
  let ?r = "receiveMessage U V acc' t'"
  show "EvVerify k' v' g' \<in> set (snd ?r) \<longrightarrow>
        (\<exists>b' m' a s. EvUnmarshal b' \<in> set (snd ?r) \<and> U b' = Inr m'
            \<and> Message m' = Some a \<and> Sender m' = Some s \<and> PublicKey s = Some k'
            \<and> Address s \<noteq> [] \<and> Signature m' = Some g' \<and> Value a = v')"
  proof
    assume h: "EvVerify k' v' g' \<in> set (snd ?r)"
    from receiveMessage_cases [of U V acc' t'] h
    obtain n b0 m0 where u: "U b0 = Inr m0"
      and r: "?r = (fst (check_message V m0),
             [EvSetDeadline t', EvRead 10, EvMake n, EvReadFull n, EvUnmarshal b0]
             @ snd (check_message V m0) @ [EvSetDeadline None, EvClose])" by auto
    from h r have v: "EvVerify k' v' g' \<in> set (snd (check_message V m0))" by auto
    from check_message_cases [of V m0] v
    obtain a s where "Message m0 = Some a" "Sender m0 = Some s" "PublicKey s = Some k'"
      "Address s \<noteq> []" "Signature m0 = Some g'" "Value a = v'" by auto
    with u r show "\<exists>b' m' a s. EvUnmarshal b' \<in> set (snd ?r) \<and> U b' = Inr m'
            \<and> Message m' = Some a \<and> Sender m' = Some s \<and> PublicKey s = Some k'
            \<and> Address s \<noteq> [] \<and> Signature m' = Some g' \<and> Value a = v'"
      by auto
  qed
qed


theorem invalid_headers_rejected_before_verify_witness:
  "EvUnmarshal [7]
       \<in> set (snd (receiveMessage example_unmarshal example_verify
          (Inr (incoming [[1, 0, 0, 0, 0, 0, 0, 0, 0, 0, 7]] EOF)) (Some 5)))
   \<and> example_unmarshal [7]
       = Inr \<lparr>Message = Some \<lparr>TypeUrl = [], Value = [7]\<rparr>, Sender = None, Signature = None\<rparr>
   \<and> receiveMessage example_unmarshal example_verify
          (Inr (incoming [[1, 0, 0, 0, 0, 0, 0, 0, 0, 0, 7]] EOF)) (Some 5)
     = (Inl ErrInvalidMessage,
        [EvSetDeadline (Some 5), EvRead 10, EvMake 1, EvReadFull 1, EvUnmarshal [7],
         EvSetDeadline None, EvClose])
   \<and> EvVerify [1] [2] [1, 2]
       \<in> set (snd (receiveMessage example_unmarshal example_verify
          (Inr (incoming [[4, 0, 0, 0, 0, 0, 0, 0, 0, 0, 1, 2, 1, 2]] EOF)) None))
   \<and> EvUnmarshal [1, 2, 1, 2]
       \<in> set (snd (receiveMessage example_unmarshal example_verify
          (Inr (incoming [[4, 0, 0, 0, 0, 0, 0, 0, 0, 0, 1, 2, 1, 2]] EOF)) None))
   \<and> example_unmarshal [1, 2, 1, 2] = Inr (example_message 1 2 [1, 2])"
  using invalid_headers_rejected_before_verify
    [of "[7]" example_unmarshal example_verify
        "Inr (incoming [[1, 0, 0, 0, 0, 0, 0, 0, 0, 0, 7]] EOF)" "Some 5"
        "\<lparr>Message = Some \<lparr>TypeUrl = [], Value = [7]\<rparr>, Sender = None, Signature = None\<rparr>"
        "[1]" "[2]" "[1, 2]"
        "Inr (incoming [[4, 0, 0, 0, 0, 0, 0, 0, 0, 0, 1, 2, 1, 2]] EOF)" None]
  by (simp add: receiveMessage_def receiveMessage_body_def incoming_def MaxVarintLen64_def
      Uvarint_def ReadFull_def example_unmarshal_def example_message_def example_verify_def
      check_message_def headers_invalid_def slice_bytes_def)

text \<open>
  Claim C3 at a stream that delivers the prefix in two reads. The prefix
  \<open>[0x81, 0x92, 0xF4, 1, 0, 0, 0, 0, 0, 0]\<close> declares 4,000,001 bytes, and the frame is
  rejected when the first read delivers the whole prefix. When the first read delivers only
  its first byte, \<^verbatim>\<open>receiveMessage\<close> decodes the length 1 from the byte and the
  zeros left in its buffer, makes a buffer and reads a byte of what follows. In the same
  way a first read of one byte \<open>0xFF\<close> of a varint that overflows is taken for the length
  127.
\<close>

theorem short_probe_read_defeats_length_check:
  "Uvarint [0x81, 0x92, 0xF4, 1, 0, 0, 0, 0, 0, 0] = (4000001, 4)
   \<and> receiveMessage example_unmarshal example_verify
        (Inr (incoming [[0x81, 0x92, 0xF4, 1, 0, 0, 0, 0, 0, 0, 7, 7, 7]] EOF)) (Some 5)
     = (Inl ErrBadLength, [EvSetDeadline (Some 5), EvRead 10, EvSetDeadline None, EvClose])
   \<and> receiveMessage example_unmarshal example_verify
        (Inr (incoming [[0x81], [0x92, 0xF4, 1, 0, 0, 0, 0, 0, 0, 7, 7, 7]] EOF)) (Some 5)
     = (Inl ErrInvalidMessage,
        [EvSetDeadline (Some 5), EvRead 10, EvMake 1, EvReadFull 1, EvUnmarshal [0x92],
         EvSetDeadline None, EvClose])
   \<and> Uvarint [0xFF, 0xFF, 0xFF, 0xFF, 0xFF, 0xFF, 0xFF, 0xFF, 0xFF, 0xFF] = (0, 0)
   \<and> receiveMessage example_unmarshal example_verify
        (Inr (incoming [[0xFF], [0xFF, 0xFF, 0xFF, 0xFF, 0xFF, 0xFF, 0xFF, 0xFF, 0xFF]] EOF))
        (Some 5)
     = (Inl (Err ErrUnexpectedEOF),
        [EvSetDeadline (Some 5), EvRead 10, EvMake 127, EvReadFull 127, EvClose,
         EvSetDeadline None, EvClose])"
  by (simp add: sendMessage_def sendMessage_body_def receiveMessage_def
      receiveMessage_body_def incoming_def example_marshal_def example_unmarshal_def
      example_message_def example_verify_def check_message_def headers_invalid_def
      slice_bytes_def prefix_with_size_def PutUvarint_def PutUvarint_loop.simps
      MaxVarintLen64_def Uvarint_def ReadFull_def replicate_10 replicate_numeral)

text \<open>
  Claim C4 at a stream that delivers the prefix in two reads. For the payload
  \<open>[1, 2, 1, 2]\<close> \<^verbatim>\<open>sendMessage\<close> writes the frame
  \<open>[4, 0, 0, 0, 0, 0, 0, 0, 0, 0, 1, 2, 1, 2]\<close>. When the first read delivers the whole
  prefix, the body read is the payload. When the first read delivers only the first byte,
  the length decoded is still 4, but the body read is the four bytes after that byte, which
  are padding: \<open>[0, 0, 0, 0]\<close> is handed to the unmarshaller, here with a message
  that is accepted.
\<close>

theorem short_probe_read_breaks_round_trip:
  "sendMessage example_marshal (Inr (incoming [] EOF)) 7 (example_message 1 2 [1, 2])
     = (None, [EvSetDeadline (Some 1000000007),
               EvWrite [4, 0, 0, 0, 0, 0, 0, 0, 0, 0, 1, 2, 1, 2], EvFlush,
               EvSetDeadline None, EvClose])
   \<and> receiveMessage example_unmarshal example_verify
        (Inr (incoming [[4, 0, 0, 0, 0, 0, 0, 0, 0, 0, 1], [2, 1, 2]] EOF)) None
     = (Inr (example_message 1 2 [1, 2]),
        [EvSetDeadline None, EvRead 10, EvMake 4, EvReadFull 4, EvUnmarshal [1, 2, 1, 2],
         EvVerify [1] [2] [1, 2], EvSetDeadline None, EvClose])
   \<and> receiveMessage example_unmarshal example_verify
        (Inr (incoming [[4], [0, 0, 0, 0, 0, 0, 0, 0, 0, 1, 2, 1, 2]] EOF)) None
     = (Inr (example_message 0 0 [0, 0]),
        [EvSetDeadline None, EvRead 10, EvMake 4, EvReadFull 4, EvUnmarshal [0, 0, 0, 0],
         EvVerify [0] [0] [0, 0], EvSetDeadline None, EvClose])"
  by (simp add: sendMessage_def sendMessage_body_def receiveMessage_def
      receiveMessage_body_def incoming_def example_marshal_def example_unmarshal_def
      example_message_def example_verify_def check_message_def headers_invalid_def
      slice_bytes_def prefix_with_size_def PutUvarint_def PutUvarint_loop.simps
      MaxVarintLen64_def Uvarint_def ReadFull_def replicate_10 replicate_numeral)

text \<open>
  Claim C5, as amended. \<^verbatim>\<open>sendMessage\<close> writes the minimal varint of the length of
  the payload, padded with zero bytes to the ten bytes of \<^verbatim>\<open>binary.MaxVarintLen64\<close>,
  followed by the payload. The varint is minimal: it decodes to the length, and no byte
  string that decodes to the length does so in fewer bytes.
\<close>

theorem frame_is_padded_minimal_varint:
  assumes "set_deadline_err st = None" and "marshal msg = Inr b" and "length b < 2 ^ 63"
  shows "length (min_uvarint (length b)) \<le> 10
       \<and> (\<exists>post. snd (sendMessage marshal (Inr st) now msg) =
             [EvSetDeadline (Some (now + 1000000000)),
              EvWrite (min_uvarint (length b)
                       @ replicate (10 - length (min_uvarint (length b))) 0 @ b)] @ post)
       \<and> Uvarint (min_uvarint (length b))
           = (of_nat (length b), int (length (min_uvarint (length b))))
       \<and> (\<forall>bs n. Uvarint bs = (of_nat (length b), n) \<and> 0 < n
             \<longrightarrow> length (min_uvarint (length b)) \<le> nat n)"
proof -
  let ?x = "of_nat (length b) :: uint64"
  from assms(3) have lt: "length b < 2 ^ 64" by simp
  then have ux: "unat ?x = length b" by (rule unat_of_nat_length)
  from assms(3) ux have "unat ?x < 128 ^ 9" by simp
  then have k9: "length (uvarint_bytes ?x) \<le> 9" by (intro length_uvarint_bytes_le) simp_all
  from Uvarint_bytes [OF k9, of "[]"]
  have dec: "Uvarint (min_uvarint (length b))
           = (of_nat (length b), int (length (min_uvarint (length b))))"
    by (simp add: uvarint_bytes_min ux)
  have least: "\<forall>bs n. Uvarint bs = (of_nat (length b), n) \<and> 0 < n
             \<longrightarrow> length (min_uvarint (length b)) \<le> nat n"
  proof (intro allI impI)
    fix bs n
    assume "Uvarint bs = (of_nat (length b), n) \<and> 0 < n"
    then have "length (min_uvarint (unat ?x)) \<le> nat n"
      by (intro Uvarint_at_least_min [of bs]) simp_all
    then show "length (min_uvarint (length b)) \<le> nat n" by (simp only: ux)
  qed
  from sendMessage_events
      [where marshal = marshal and msg = msg, OF assms(1,2) prefix_with_size_min [OF lt]]
    length_min_uvarint_10 [OF lt] dec least
  show ?thesis by simp
qed

theorem frame_is_padded_minimal_varint_witness:
  "set_deadline_err (incoming [] EOF) = None
   \<and> example_marshal (example_message 1 2 [1, 2]) = Inr [1, 2, 1, 2]
   \<and> length [1, 2, 1, 2 :: byte] < 2 ^ 63
   \<and> length (min_uvarint (length [1, 2, 1, 2 :: byte])) \<le> 10
   \<and> (\<exists>post. snd (sendMessage example_marshal (Inr (incoming [] EOF)) 7
                      (example_message 1 2 [1, 2])) =
             [EvSetDeadline (Some (7 + 1000000000)),
              EvWrite (min_uvarint (length [1, 2, 1, 2 :: byte])
                       @ replicate (10 - length (min_uvarint (length [1, 2, 1, 2 :: byte]))) 0
                       @ [1, 2, 1, 2])] @ post)"
  using frame_is_padded_minimal_varint
    [of "incoming [] EOF" example_marshal "example_message 1 2 [1, 2]" "[1, 2, 1, 2]" 7]
  by (simp add: incoming_def example_marshal_def example_message_def slice_bytes_def)

text \<open>
  The frame is not the bare minimal varint followed by the payload: for the payload
  \<open>[1, 2, 1, 2]\<close> the frame written has nine zero bytes between the varint \<open>[4]\<close> and
  the payload.
\<close>

theorem frame_is_minimal_varint_counterexample:
  "example_marshal (example_message 1 2 [1, 2]) = Inr [1, 2, 1, 2]
   \<and> sendMessage example_marshal (Inr (incoming [] EOF)) 7 (example_message 1 2 [1, 2])
       = (None, [EvSetDeadline (Some 1000000007),
                 EvWrite [4, 0, 0, 0, 0, 0, 0, 0, 0, 0, 1, 2, 1, 2], EvFlush,
                 EvSetDeadline None, EvClose])
   \<and> min_uvarint (length [1, 2, 1, 2 :: byte]) @ [1, 2, 1, 2] = [4, 1, 2, 1, 2]
   \<and> prefix_with_size [1, 2, 1, 2]
       \<noteq> Some (min_uvarint (length [1, 2, 1, 2 :: byte]) @ [1, 2, 1, 2])"
  by (simp add: sendMessage_def sendMessage_body_def incoming_def example_marshal_def
      example_message_def slice_bytes_def prefix_with_size_def PutUvarint_def
      PutUvarint_loop.simps MaxVarintLen64_def replicate_10 min_uvarint.simps)

text \<open>
  Claim C10 at a stream that delivers the prefix in two reads. The frame
  \<^verbatim>\<open>sendMessage\<close> writes has the prefix of ten bytes. When the first read delivers
  three of them, \<^verbatim>\<open>receiveMessage\<close> has a probe of three bytes, and takes the body
  from the fourth byte of the frame, not from the eleventh: the bytes of the prefix after
  the varint are not discarded, they are read as the body.
\<close>

theorem short_probe_read_keeps_prefix_bytes:
  "sendMessage example_marshal (Inr (incoming [] EOF)) 7 (example_message 1 2 [1, 2])
     = (None, [EvSetDeadline (Some 1000000007),
               EvWrite [4, 0, 0, 0, 0, 0, 0, 0, 0, 0, 1, 2, 1, 2], EvFlush,
               EvSetDeadline None, EvClose])
   \<and> reader_Read MaxVarintLen64 [[4, 0, 0], [0, 0, 0, 0, 0, 0, 0, 1, 2, 1, 2]] EOF
     = Inr ([4, 0, 0], [[0, 0, 0, 0, 0, 0, 0, 1, 2, 1, 2]])
   \<and> snd (receiveMessage example_unmarshal example_verify
        (Inr (incoming [[4, 0, 0], [0, 0, 0, 0, 0, 0, 0, 1, 2, 1, 2]] EOF)) None)
     = [EvSetDeadline None, EvRead 10, EvMake 4, EvReadFull 4, EvUnmarshal [0, 0, 0, 0],
        EvVerify [0] [0] [0, 0], EvSetDeadline None, EvClose]
   \<and> snd (receiveMessage example_unmarshal example_verify
        (Inr (incoming [[4, 0, 0, 0, 0, 0, 0, 0, 0, 0], [1, 2, 1, 2]] EOF)) None)
     = [EvSetDeadline None, EvRead 10, EvMake 4, EvReadFull 4, EvUnmarshal [1, 2, 1, 2],
        EvVerify [1] [2] [1, 2], EvSetDeadline None, EvClose]"
  by (simp add: sendMessage_def sendMessage_body_def receiveMessage_def
      receiveMessage_body_def incoming_def example_marshal_def example_unmarshal_def
      example_message_def example_verify_def check_message_def headers_invalid_def
      slice_bytes_def prefix_with_size_def PutUvarint_def PutUvarint_loop.simps
      MaxVarintLen64_def Uvarint_def ReadFull_def replicate_10 replicate_numeral)




text \<open>
  Claim C9, as amended. Once the deadline was set, \<^verbatim>\<open>sendMessage\<close> and
  \<^verbatim>\<open>receiveMessage\<close> end, whatever happens in between, by resetting the deadline to
  none and closing the stream, and nothing in between sets a deadline. When setting the
  deadline fails, the stream is closed and the deadline is not reset. When no stream was
  opened or accepted, nothing is done.
\<close>

theorem teardown_on_every_path:
  "(set_deadline_err st = None \<longrightarrow>
      (\<exists>evs. snd (sendMessage marshal (Inr st) now msg) =
                EvSetDeadline (Some (now + 1000000000)) # evs @ [EvSetDeadline None, EvClose]
            \<and> (\<forall>d. EvSetDeadline d \<notin> set evs))
      \<and> (\<exists>evs. snd (receiveMessage U V (Inr st) t) =
                EvSetDeadline t # evs @ [EvSetDeadline None, EvClose]
            \<and> (\<forall>d. EvSetDeadline d \<notin> set evs)))
   \<and> (set_deadline_err st' = Some e \<longrightarrow>
        sendMessage marshal (Inr st') now msg =
          (Some (Err e), [EvSetDeadline (Some (now + 1000000000)), EvClose])
        \<and> receiveMessage U V (Inr st') t = (Inl (Err e), [EvSetDeadline t, EvClose]))
   \<and> sendMessage marshal (Inl e') now msg = (Some (Err e'), [])
   \<and> receiveMessage U V (Inl e') t = (Inl (Err e'), [])"
proof (intro conjI impI)
  assume ok: "set_deadline_err st = None"
  have "snd (sendMessage marshal (Inr st) now msg) =
          EvSetDeadline (Some (now + 1000000000)) # snd (sendMessage_body marshal st msg)
          @ [EvSetDeadline None, EvClose]"
    using ok by (simp add: sendMessage_def split: prod.splits)
  with sendMessage_body_events [of marshal st msg]
  show "\<exists>evs. snd (sendMessage marshal (Inr st) now msg) =
                EvSetDeadline (Some (now + 1000000000)) # evs @ [EvSetDeadline None, EvClose]
            \<and> (\<forall>d. EvSetDeadline d \<notin> set evs)" by blast
  have "snd (receiveMessage U V (Inr st) t) =
          EvSetDeadline t # snd (receiveMessage_body U V st) @ [EvSetDeadline None, EvClose]"
    using ok by (simp add: receiveMessage_def split: prod.splits)
  with receiveMessage_body_events [of U V st]
  show "\<exists>evs. snd (receiveMessage U V (Inr st) t) =
                EvSetDeadline t # evs @ [EvSetDeadline None, EvClose]
            \<and> (\<forall>d. EvSetDeadline d \<notin> set evs)" by blast
next
  assume "set_deadline_err st' = Some e"
  then show "sendMessage marshal (Inr st') now msg =
          (Some (Err e), [EvSetDeadline (Some (now + 1000000000)), EvClose])"
    and "receiveMessage U V (Inr st') t = (Inl (Err e), [EvSetDeadline t, EvClose])"
    by (simp_all add: sendMessage_def receiveMessage_def)
next
  show "sendMessage marshal (Inl e') now msg = (Some (Err e'), [])"
    by (simp add: sendMessage_def)
  show "receiveMessage U V (Inl e') t = (Inl (Err e'), [])"
    by (simp add: receiveMessage_def)
qed

theorem teardown_on_every_path_witness:
  "set_deadline_err (incoming [[1, 0, 0, 0, 0, 0, 0, 0, 0, 0, 7]] EOF) = None
   \<and> sendMessage example_marshal (Inr (incoming [[1, 0, 0, 0, 0, 0, 0, 0, 0, 0, 7]] EOF)) 7
        (example_message 1 2 [1, 2])
     = (None, [EvSetDeadline (Some 1000000007),
               EvWrite [4, 0, 0, 0, 0, 0, 0, 0, 0, 0, 1, 2, 1, 2], EvFlush,
               EvSetDeadline None, EvClose])
   \<and> receiveMessage example_unmarshal example_verify
        (Inr (incoming [[1, 0, 0, 0, 0, 0, 0, 0, 0, 0, 7]] EOF)) (Some 5)
     = (Inl ErrInvalidMessage,
        [EvSetDeadline (Some 5), EvRead 10, EvMake 1, EvReadFull 1, EvUnmarshal [7],
         EvSetDeadline None, EvClose])
   \<and> set_deadline_err ((incoming [] EOF)\<lparr>set_deadline_err := Some (IOError 1)\<rparr>)
       = Some (IOError 1)
   \<and> sendMessage example_marshal
        (Inr ((incoming [] EOF)\<lparr>set_deadline_err := Some (IOError 1)\<rparr>)) 7
        (example_message 1 2 [1, 2])
     = (Some (Err (IOError 1)), [EvSetDeadline (Some (7 + 1000000000)), EvClose])
   \<and> receiveMessage example_unmarshal example_verify
        (Inr ((incoming [] EOF)\<lparr>set_deadline_err := Some (IOError 1)\<rparr>)) (Some 5)
     = (Inl (Err (IOError 1)), [EvSetDeadline (Some 5), EvClose])"
  using teardown_on_every_path
    [of "incoming [[1, 0, 0, 0, 0, 0, 0, 0, 0, 0, 7]] EOF" example_marshal 7
        "example_message 1 2 [1, 2]" example_unmarshal example_verify "Some 5"
        "(incoming [] EOF)\<lparr>set_deadline_err := Some (IOError 1)\<rparr>" "IOError 1" EOF]
  by (simp add: sendMessage_def sendMessage_body_def receiveMessage_def
      receiveMessage_body_def incoming_def example_marshal_def example_unmarshal_def
      example_message_def example_verify_def check_message_def headers_invalid_def
      slice_bytes_def prefix_with_size_def PutUvarint_def PutUvarint_loop.simps
      MaxVarintLen64_def Uvarint_def ReadFull_def replicate_10 replicate_numeral)

text \<open>
  When \<^verbatim>\<open>SetDeadline\<close> fails, the function returns before the reset is
  deferred: the stream is closed, and no reset of the deadline is made.
\<close>

theorem deadline_reset_on_every_path_counterexample:
  "receiveMessage example_unmarshal example_verify
     (Inr ((incoming [] EOF)\<lparr>set_deadline_err := Some (IOError 1)\<rparr>)) (Some 5)
     = (Inl (Err (IOError 1)), [EvSetDeadline (Some 5), EvClose])
   \<and> EvSetDeadline None
       \<notin> set (snd (receiveMessage example_unmarshal example_verify
            (Inr ((incoming [] EOF)\<lparr>set_deadline_err := Some (IOError 1)\<rparr>)) (Some 5)))
   \<and> EvSetDeadline None
       \<notin> set (snd (sendMessage example_marshal
            (Inr ((incoming [] EOF)\<lparr>set_deadline_err := Some (IOError 1)\<rparr>)) 7
            (example_message 1 2 [1, 2])))"
  by (simp add: sendMessage_def receiveMessage_def incoming_def)


text \<open>
  Claim C7, as amended. Once the dispatch queue has taken the packet, \<^verbatim>\<open>Write\<close>
  returns within three seconds: with the result of the completion slot if a value arrives
  in that time, and otherwise, exactly three seconds after the queue took the packet, with
  the timeout error. The send on the queue itself has no timeout: while the queue does not
  take the packet, \<^verbatim>\<open>Write\<close> does not return.
\<close>

theorem write_blocks_three_seconds_after_enqueue:
  "(queue_accepts_after w = Some q \<longrightarrow>
      (\<exists>el r pkt h1. Write w h a m = Some (el, r, pkt, h1)
          \<and> q \<le> el \<and> el \<le> q + 3000000000
          \<and> (completion w = None \<longrightarrow> el = q + 3000000000 \<and> r = Some ErrTimedOut)))
   \<and> (queue_accepts_after w' = None \<longrightarrow> Write w' h a m = None)"
proof (intro conjI impI)
  assume "queue_accepts_after w = Some q"
  from Write_enqueued [OF this, of h a m]
  show "\<exists>el r pkt h1. Write w h a m = Some (el, r, pkt, h1)
          \<and> q \<le> el \<and> el \<le> q + 3000000000
          \<and> (completion w = None \<longrightarrow> el = q + 3000000000 \<and> r = Some ErrTimedOut)"
    by (elim exE conjE) (intro exI conjI, assumption+)
next
  assume "queue_accepts_after w' = None"
  then show "Write w' h a m = None" by (rule Write_never_enqueued)
qed

theorem write_blocks_three_seconds_after_enqueue_witness:
  "queue_accepts_after
      \<lparr>queue_accepts_after = Some 0, completion = None, select_takes_result = False\<rparr> = Some 0
   \<and> completion
      \<lparr>queue_accepts_after = Some 0, completion = None, select_takes_result = False\<rparr> = None
   \<and> (\<exists>pkt h1.
        Write \<lparr>queue_accepts_after = Some 0, completion = None, select_takes_result = False\<rparr>
          [] ''a:1'' (example_message 1 2 [1, 2])
        = Some (3000000000, Some ErrTimedOut, pkt, h1))
   \<and> queue_accepts_after
      \<lparr>queue_accepts_after = None, completion = Some (1, OtherValue),
       select_takes_result = True\<rparr> = None
   \<and> Write \<lparr>queue_accepts_after = None, completion = Some (1, OtherValue),
             select_takes_result = True\<rparr>
        [] ''a:1'' (example_message 1 2 [1, 2]) = None"
  using write_blocks_three_seconds_after_enqueue
    [of "\<lparr>queue_accepts_after = Some 0, completion = None, select_takes_result = False\<rparr>" 0
        "[]" "''a:1''" "example_message 1 2 [1, 2]"
        "\<lparr>queue_accepts_after = None, completion = Some (1, OtherValue),
          select_takes_result = True\<rparr>"]
  by auto

text \<open>
  A queue that takes the packet only after five seconds keeps the caller blocked for
  eight seconds, and a queue that never takes it keeps the caller blocked for ever.
\<close>

theorem write_blocks_at_most_three_seconds_counterexample:
  "Write \<lparr>queue_accepts_after = Some 5000000000, completion = None,
          select_takes_result = False\<rparr>
     [] ''a:1'' (example_message 1 2 [1, 2])
   = Some (8000000000, Some ErrTimedOut,
           \<lparr>RemoteAddress = ''a:1'', Payload = example_message 1 2 [1, 2], Result = 0\<rparr>,
           [\<lparr>chan_cap = 1, chan_buf = [], chan_closed = False\<rparr>])
   \<and> Write \<lparr>queue_accepts_after = None, completion = None, select_takes_result = False\<rparr>
       [] ''a:1'' (example_message 1 2 [1, 2])
     = None"
  by (simp add: Write_def make_chan_def)

text \<open>
  Claim C8. The completion slot of a call of \<^verbatim>\<open>Write\<close> is a new channel of
  capacity one: the channel made is at an address not in the heap before, empty and open,
  and every call that gets its packet into the queue returns with that channel as the
  \<^verbatim>\<open>Result\<close> of its packet, empty and open. When the consumer completes the packet
  after the three seconds, the call has returned the timeout error, and the consumer's send
  on the slot, in any later heap that still has the slot as the call left it, goes into
  the buffer: it neither blocks nor panics, it changes no other channel, a second send
  would block, and no later call of \<^verbatim>\<open>Write\<close> gets the same slot.
\<close>

theorem completion_slot_absorbs_late_value:
  "make_chan h 1 = (length h, h @ [\<lparr>chan_cap = 1, chan_buf = [], chan_closed = False\<rparr>])
   \<and> (queue_accepts_after w = Some q \<longrightarrow>
        (\<exists>el r pkt h1.
           Write w h a m = Some (el, r, pkt, h1)
           \<and> Result pkt = length h
           \<and> h1 = h @ [\<lparr>chan_cap = 1, chan_buf = [], chan_closed = False\<rparr>]
           \<and> (\<forall>d raw. completion w = Some (d, raw) \<and> 3000000000 < d \<longrightarrow>
                el = q + 3000000000 \<and> r = Some ErrTimedOut
                \<and> (\<forall>h2 h3.
                     Result pkt < length h2 \<and> h2 ! Result pkt = h1 ! Result pkt
                     \<and> h3 = h2[Result pkt :=
                                 \<lparr>chan_cap = 1, chan_buf = [raw], chan_closed = False\<rparr>]
                     \<longrightarrow>
                       chan_send h2 (Result pkt) raw = Sent h3
                       \<and> (\<forall>b. b \<noteq> Result pkt \<longrightarrow> h3 ! b = h2 ! b)
                       \<and> (\<forall>v. chan_send h3 (Result pkt) v = SendBlocks)
                       \<and> (\<forall>w' a' m' el' r' pkt' h4.
                             Write w' h3 a' m' = Some (el', r', pkt', h4)
                             \<longrightarrow> Result pkt' \<noteq> Result pkt)))))"
proof (intro conjI impI)
  show "make_chan h 1 = (length h, h @ [\<lparr>chan_cap = 1, chan_buf = [], chan_closed = False\<rparr>])"
    by (simp add: make_chan_def)
next
  let ?c = "\<lparr>chan_cap = 1, chan_buf = [], chan_closed = False\<rparr>"
  let ?pkt = "\<lparr>RemoteAddress = a, Payload = m, Result = length h\<rparr>"
  assume q: "queue_accepts_after w = Some q"
  from Write_enqueued [OF q, of h a m] obtain el r h1 where
    wr: "Write w h a m = Some (el, r, ?pkt, h1)" and h1: "h1 = h @ [?c]" by blast
  have late: "\<forall>d raw. completion w = Some (d, raw) \<and> 3000000000 < d \<longrightarrow>
                el = q + 3000000000 \<and> r = Some ErrTimedOut
                \<and> (\<forall>h2 h3.
                     Result ?pkt < length h2 \<and> h2 ! Result ?pkt = h1 ! Result ?pkt
                     \<and> h3 = h2[Result ?pkt :=
                                 \<lparr>chan_cap = 1, chan_buf = [raw], chan_closed = False\<rparr>]
                     \<longrightarrow>
                       chan_send h2 (Result ?pkt) raw = Sent h3
                       \<and> (\<forall>b. b \<noteq> Result ?pkt \<longrightarrow> h3 ! b = h2 ! b)
                       \<and> (\<forall>v. chan_send h3 (Result ?pkt) v = SendBlocks)
                       \<and> (\<forall>w' a' m' el' r' pkt' h4.
                             Write w' h3 a' m' = Some (el', r', pkt', h4)
                             \<longrightarrow> Result pkt' \<noteq> Result ?pkt))"
  proof (intro allI impI)
    fix d raw
    assume c: "completion w = Some (d, raw) \<and> 3000000000 < d"
    with q wr have t: "el = q + 3000000000" "r = Some ErrTimedOut"
      by (auto simp: Write_def make_chan_def)
    have abs: "\<forall>h2 h3.
                     Result ?pkt < length h2 \<and> h2 ! Result ?pkt = h1 ! Result ?pkt
                     \<and> h3 = h2[Result ?pkt :=
                                 \<lparr>chan_cap = 1, chan_buf = [raw], chan_closed = False\<rparr>]
                     \<longrightarrow>
                       chan_send h2 (Result ?pkt) raw = Sent h3
                       \<and> (\<forall>b. b \<noteq> Result ?pkt \<longrightarrow> h3 ! b = h2 ! b)
                       \<and> (\<forall>v. chan_send h3 (Result ?pkt) v = SendBlocks)
                       \<and> (\<forall>w' a' m' el' r' pkt' h4.
                             Write w' h3 a' m' = Some (el', r', pkt', h4)
                             \<longrightarrow> Result pkt' \<noteq> Result ?pkt)"
    proof (intro allI impI)
      fix h2 h3
      assume s: "Result ?pkt < length h2 \<and> h2 ! Result ?pkt = h1 ! Result ?pkt
                     \<and> h3 = h2[Result ?pkt :=
                                 \<lparr>chan_cap = 1, chan_buf = [raw], chan_closed = False\<rparr>]"
      then have lt: "length h < length h2" and slot: "h2 ! length h = ?c"
        and h3: "h3 = h2[length h := \<lparr>chan_cap = 1, chan_buf = [raw], chan_closed = False\<rparr>]"
        by (simp_all add: h1)
      from chan_send_fresh [OF lt slot, of raw] h3
      have one: "chan_send h2 (length h) raw = Sent h3" by simp
      from h3 have other: "\<forall>b. b \<noteq> length h \<longrightarrow> h3 ! b = h2 ! b" by simp
      from lt h3 have full: "\<forall>v. chan_send h3 (length h) v = SendBlocks"
        by (simp add: chan_send_def)
      have later: "\<forall>w' a' m' el' r' pkt' h4.
            Write w' h3 a' m' = Some (el', r', pkt', h4) \<longrightarrow> Result pkt' \<noteq> length h"
      proof (intro allI impI)
        fix w' a' m' el' r' pkt' h4
        assume "Write w' h3 a' m' = Some (el', r', pkt', h4)"
        from Write_result_slot [OF this] lt h3
        show "Result pkt' \<noteq> length h" by simp
      qed
      from one other full later
      show "chan_send h2 (Result ?pkt) raw = Sent h3
                       \<and> (\<forall>b. b \<noteq> Result ?pkt \<longrightarrow> h3 ! b = h2 ! b)
                       \<and> (\<forall>v. chan_send h3 (Result ?pkt) v = SendBlocks)
                       \<and> (\<forall>w' a' m' el' r' pkt' h4.
                             Write w' h3 a' m' = Some (el', r', pkt', h4)
                             \<longrightarrow> Result pkt' \<noteq> Result ?pkt)"
        by simp
    qed
    from t abs show "el = q + 3000000000 \<and> r = Some ErrTimedOut
                \<and> (\<forall>h2 h3.
                     Result ?pkt < length h2 \<and> h2 ! Result ?pkt = h1 ! Result ?pkt
                     \<and> h3 = h2[Result ?pkt :=
                                 \<lparr>chan_cap = 1, chan_buf = [raw], chan_closed = False\<rparr>]
                     \<longrightarrow>
                       chan_send h2 (Result ?pkt) raw = Sent h3
                       \<and> (\<forall>b. b \<noteq> Result ?pkt \<longrightarrow> h3 ! b = h2 ! b)
                       \<and> (\<forall>v. chan_send h3 (Result ?pkt) v = SendBlocks)
                       \<and> (\<forall>w' a' m' el' r' pkt' h4.
                             Write w' h3 a' m' = Some (el', r', pkt', h4)
                             \<longrightarrow> Result pkt' \<noteq> Result ?pkt))"
      by (intro conjI)
  qed
  have rp: "Result ?pkt = length h" by simp
  from wr rp h1 late
  show "\<exists>el r pkt h1.
           Write w h a m = Some (el, r, pkt, h1)
           \<and> Result pkt = length h
           \<and> h1 = h @ [\<lparr>chan_cap = 1, chan_buf = [], chan_closed = False\<rparr>]
           \<and> (\<forall>d raw. completion w = Some (d, raw) \<and> 3000000000 < d \<longrightarrow>
                el = q + 3000000000 \<and> r = Some ErrTimedOut
                \<and> (\<forall>h2 h3.
                     Result pkt < length h2 \<and> h2 ! Result pkt = h1 ! Result pkt
                     \<and> h3 = h2[Result pkt :=
                                 \<lparr>chan_cap = 1, chan_buf = [raw], chan_closed = False\<rparr>]
                     \<longrightarrow>
                       chan_send h2 (Result pkt) raw = Sent h3
                       \<and> (\<forall>b. b \<noteq> Result pkt \<longrightarrow> h3 ! b = h2 ! b)
                       \<and> (\<forall>v. chan_send h3 (Result pkt) v = SendBlocks)
                       \<and> (\<forall>w' a' m' el' r' pkt' h4.
                             Write w' h3 a' m' = Some (el', r', pkt', h4)
                             \<longrightarrow> Result pkt' \<noteq> Result pkt)))"
    by (intro exI [of _ el] exI [of _ r] exI [of _ ?pkt] exI [of _ h1] conjI)
qed

theorem completion_slot_absorbs_late_value_witness:
  "queue_accepts_after
      \<lparr>queue_accepts_after = Some 0, completion = Some (4000000000, OtherValue),
       select_takes_result = True\<rparr> = Some 0
   \<and> completion
      \<lparr>queue_accepts_after = Some 0, completion = Some (4000000000, OtherValue),
       select_takes_result = True\<rparr> = Some (4000000000, OtherValue)
   \<and> (3000000000 :: nat) < 4000000000
   \<and> Write \<lparr>queue_accepts_after = Some 0, completion = Some (4000000000, OtherValue),
             select_takes_result = True\<rparr>
        [] ''a:1'' (example_message 1 2 [1, 2])
     = Some (3000000000, Some ErrTimedOut,
             \<lparr>RemoteAddress = ''a:1'', Payload = example_message 1 2 [1, 2], Result = 0\<rparr>,
             [\<lparr>chan_cap = 1, chan_buf = [], chan_closed = False\<rparr>])
   \<and> chan_send [\<lparr>chan_cap = 1, chan_buf = [], chan_closed = False\<rparr>,
                 \<lparr>chan_cap = 1, chan_buf = [], chan_closed = False\<rparr>] 0 OtherValue
     = Sent [\<lparr>chan_cap = 1, chan_buf = [OtherValue], chan_closed = False\<rparr>,
             \<lparr>chan_cap = 1, chan_buf = [], chan_closed = False\<rparr>]
   \<and> chan_send [\<lparr>chan_cap = 1, chan_buf = [OtherValue], chan_closed = False\<rparr>,
                 \<lparr>chan_cap = 1, chan_buf = [], chan_closed = False\<rparr>] 0 (ErrorValue Panic)
     = SendBlocks"
  using completion_slot_absorbs_late_value
    [of "[]" "\<lparr>queue_accepts_after = Some 0, completion = Some (4000000000, OtherValue),
          select_takes_result = True\<rparr>" 0 "''a:1''" "example_message 1 2 [1, 2]"]
  by (simp add: Write_def make_chan_def chan_send_def)

end
